theory Spec2Isabelle
  imports Complex_Main "HOL-Library.Word" "HOL-Library.Log_Nat" "HOL-Library.AList"
begin

section \<open>The GStreamer-to-WebRTC bridge of webrtc/gst/gst.go\<close>

subsection \<open>Single-precision arithmetic\<close>

text \<open>
  The handler computes the sample count in Go's \<^verbatim>\<open>float32\<close>. A finite \<^verbatim>\<open>float32\<close> is a
  rational number, and each IEEE 754 operation returns the exact result rounded to the
  nearest number with a 24-bit significand, ties going to the even significand. The
  exponent of the last place never goes below \<open>-149\<close> (subnormal numbers).

  Overflow to an infinity needs a magnitude of \<open>2 ^ 128\<close> or more. The handler's operands
  come from a 32-bit \<^verbatim>\<open>C.int\<close> and the constants \<open>10 ^ 9\<close>, \<open>48000\<close> and \<open>90000\<close>, so its
  values stay far below that (see \<open>f32_chain_close\<close>), and the model has no infinities.
\<close>

definition pow2 :: "int \<Rightarrow> rat" where
  "pow2 e = 2 powi e"

definition round_half_even :: "rat \<Rightarrow> int" where
  "round_half_even x =
     (let f = \<lfloor>x\<rfloor>; r = x - of_int f
      in if r < 1 / 2 then f
         else if 1 / 2 < r then f + 1
         else if even f then f else f + 1)"

definition ilog2 :: "rat \<Rightarrow> int" where
  \<comment> \<open>the floor of the binary logarithm of a positive rational\<close>
  "ilog2 x =
     (let k = bitlen (fst (quotient_of x)) - bitlen (snd (quotient_of x))
      in if pow2 k \<le> x then k else k - 1)"

definition f32_round :: "rat \<Rightarrow> rat" where
  "f32_round x =
     (if x = 0 then 0
      else let e = max (ilog2 \<bar>x\<bar> - 23) (- 149)
           in sgn x * of_int (round_half_even (\<bar>x\<bar> / pow2 e)) * pow2 e)"

definition f32_of_int :: "int \<Rightarrow> rat" where
  \<comment> \<open>the conversion \<^verbatim>\<open>float32(n)\<close> of an integer\<close>
  "f32_of_int n = f32_round (of_int n)"

definition f32_div :: "rat \<Rightarrow> rat \<Rightarrow> rat" where
  "f32_div a b = f32_round (a / b)"

definition f32_mul :: "rat \<Rightarrow> rat \<Rightarrow> rat" where
  "f32_mul a b = f32_round (a * b)"

definition trunc_rat :: "rat \<Rightarrow> int" where
  \<comment> \<open>rounding towards zero\<close>
  "trunc_rat x = (if 0 \<le> x then \<lfloor>x\<rfloor> else \<lceil>x\<rceil>)"

definition uint32_of_f32 :: "(rat \<Rightarrow> 32 word) \<Rightarrow> rat \<Rightarrow> 32 word" where
  \<comment> \<open>The conversion \<^verbatim>\<open>uint32(x)\<close> of a float drops the fraction. Where the result does not
      fit the type, Go leaves the value to the implementation: \<open>impl\<close>.\<close>
  "uint32_of_f32 impl x =
     (let t = trunc_rat x
      in if 0 \<le> t \<and> t < 2 ^ 32 then word_of_int t else impl x)"

subsection \<open>Data\<close>

text \<open>
  Pointers into the C heap and to the transport layer's tracks are opaque addresses. A
  \<^verbatim>\<open>media.Sample\<close> carries the payload and the sample count; the Go \<^verbatim>\<open>error\<close> a track
  write returns is its message.
\<close>

type_synonym GstElement = nat
type_synonym Track = nat
type_synonym byte = "8 word"

record Pipeline =
  Pipeline :: GstElement
  tracks :: "Track list"
  id' :: int
  codecName :: string

record Sample =
  Data :: "byte list"
  Samples :: "32 word"

datatype panic = PanicString string | PanicError string

text \<open>
  The calls that leave Go: into the C side of the package (\<^verbatim>\<open>gst.c\<close>) and \<^verbatim>\<open>C.free\<close>. The
  model records them in the order they are made.
\<close>

datatype native_call =
    StartMainloop
  | CreateNative string
  | StartNative GstElement "32 word"
  | StopNative GstElement
  | Free nat

type_synonym write_log = "(Track \<times> Sample \<times> string option) list"

text \<open>
  What the package does not decide: the element the C side builds from a description,
  the outcome of \<^verbatim>\<open>Track.WriteSample\<close> (it may depend on the calls made so far), and the
  value of an out-of-range float conversion.
\<close>

record extern =
  gstreamer_send_create_pipeline :: "native_call list \<Rightarrow> string \<Rightarrow> GstElement"
  WriteSample :: "write_log \<Rightarrow> Track \<Rightarrow> Sample \<Rightarrow> string option"
  uint32_conv :: "rat \<Rightarrow> 32 word"

text \<open>
  The package state. The Go map \<^verbatim>\<open>pipelines\<close> is an association list without duplicate
  keys: \<^verbatim>\<open>pipelines[k]\<close> is \<open>map_of\<close>, \<^verbatim>\<open>pipelines[k] = v\<close> is \<open>AList.update\<close>, and
  \<^verbatim>\<open>len(pipelines)\<close> is \<open>length\<close> (see \<open>len_pipelines\<close>). The calls run one at a time,
  so \<^verbatim>\<open>pipelinesLock\<close> has no effect and is left out.
\<close>

record bridge =
  pipelines :: "(int \<times> Pipeline) list"
  native :: "native_call list"
  writes :: write_log
  stdout :: "string list"

definition init_bridge :: bridge where
  \<comment> \<open>\<^verbatim>\<open>var pipelines = make(map[int]*Pipeline)\<close>, then \<^verbatim>\<open>init()\<close>\<close>
  "init_bridge = \<lparr>pipelines = [], native = [StartMainloop], writes = [], stdout = []\<rparr>"

subsection \<open>Codec identifiers\<close>

text \<open>
  Modelled from the spec: the constants \<^verbatim>\<open>webrtc.VP8\<close>, \<^verbatim>\<open>webrtc.VP9\<close>, \<^verbatim>\<open>webrtc.H264\<close>,
  \<^verbatim>\<open>webrtc.Opus\<close> and \<^verbatim>\<open>webrtc.G722\<close> belong to the imported package
  \<^verbatim>\<open>github.com/pion/webrtc/v2\<close>, which is not part of the sources. The specification
  lists the accepted identifiers as VP8, VP9, H264, Opus and G722. The proofs use only
  that the five are different strings.
\<close>

definition webrtc_VP8 :: string where "webrtc_VP8 = ''VP8''"
definition webrtc_VP9 :: string where "webrtc_VP9 = ''VP9''"
definition webrtc_H264 :: string where "webrtc_H264 = ''H264''"
definition webrtc_Opus :: string where "webrtc_Opus = ''Opus''"
definition webrtc_G722 :: string where "webrtc_G722 = ''G722''"

subsection \<open>CreatePipeline, Start, Stop\<close>

text \<open>
  \<^verbatim>\<open>CreatePipeline\<close> panics on an unhandled codec before it touches anything. Otherwise it
  hands the description to the C side and stores a new struct under the key
  \<^verbatim>\<open>len(pipelines)\<close>. It returns the address of that struct, which is never nil. The C copy
  of the description is allocated and freed inside the call and is not modelled.
\<close>

definition CreatePipeline ::
  "extern \<Rightarrow> string \<Rightarrow> Track list \<Rightarrow> string \<Rightarrow> bridge \<Rightarrow> (panic + Pipeline) \<times> bridge" where
  "CreatePipeline env codec trks pipelineSrc s =
     (let pipelineStr = ''appsink name=appsink'';
          r =
            (if codec = webrtc_VP8 then
               Inr (pipelineSrc @ '' ! vp8enc error-resilient=partitions keyframe-max-dist=10 auto-alt-ref=true cpu-used=5 deadline=1 ! '' @ pipelineStr)
             else if codec = webrtc_VP9 then
               Inr (pipelineSrc @ '' ! vp9enc ! '' @ pipelineStr)
             else if codec = webrtc_H264 then
               Inr (pipelineSrc @ '' ! video/x-raw,format=I420 ! x264enc bframes=0 speed-preset=veryfast key-int-max=60 ! video/x-h264,stream-format=byte-stream ! '' @ pipelineStr)
             else if codec = webrtc_Opus then
               Inr (pipelineSrc @ '' ! opusenc ! '' @ pipelineStr)
             else if codec = webrtc_G722 then
               Inr (pipelineSrc @ '' ! avenc_g722 ! '' @ pipelineStr)
             else Inl (PanicString (''Unhandled codec '' @ codec)))
      in case r of
           Inl p \<Rightarrow> (Inl p, s)
         | Inr pipelineStr \<Rightarrow>
             (let pipeline =
                    \<lparr>Pipeline = gstreamer_send_create_pipeline env (native s) pipelineStr,
                     tracks = trks,
                     id' = int (length (pipelines s)),
                     codecName = codec\<rparr>
              in (Inr pipeline,
                  s\<lparr>pipelines := AList.update (id' pipeline) pipeline (pipelines s),
                    native := native s @ [CreateNative pipelineStr]\<rparr>)))"

definition Start :: "Pipeline \<Rightarrow> bridge \<Rightarrow> bridge" where
  \<comment> \<open>\<^verbatim>\<open>C.int(p.id)\<close> keeps the low 32 bits\<close>
  "Start p s = s\<lparr>native := native s @ [StartNative (Pipeline p) (word_of_int (id' p))]\<rparr>"

definition Stop :: "Pipeline \<Rightarrow> bridge \<Rightarrow> bridge" where
  "Stop p s = s\<lparr>native := native s @ [StopNative (Pipeline p)]\<rparr>"

subsection \<open>goHandlePipelineBuffer\<close>

definition videoClockRate :: rat where "videoClockRate = 90000"
definition audioClockRate :: rat where "audioClockRate = 48000"

text \<open>Lines 118 to 123: the sample count of a chunk of \<open>duration\<close> nanoseconds.\<close>

definition samples_f32 :: "string \<Rightarrow> 32 word \<Rightarrow> rat" where
  "samples_f32 codec duration =
     (if codec = webrtc_Opus
      then f32_mul audioClockRate (f32_div (f32_of_int (sint duration)) 1000000000)
      else f32_mul videoClockRate (f32_div (f32_of_int (sint duration)) 1000000000))"

definition samples_of :: "extern \<Rightarrow> string \<Rightarrow> 32 word \<Rightarrow> 32 word" where
  "samples_of env codec duration = uint32_of_f32 (uint32_conv env) (samples_f32 codec duration)"

text \<open>
  The loop over the tracks. A write that returns an error panics, so the tracks after it
  are not written.
\<close>

fun write_tracks :: "extern \<Rightarrow> Track list \<Rightarrow> Sample \<Rightarrow> write_log \<Rightarrow> (panic + unit) \<times> write_log" where
  "write_tracks env [] smp lg = (Inr (), lg)"
| "write_tracks env (t # ts) smp lg =
     (case WriteSample env lg t smp of
        Some err \<Rightarrow> (Inl (PanicError err), lg @ [(t, smp, Some err)])
      | None \<Rightarrow> write_tracks env ts smp (lg @ [(t, smp, None)]))"

fun fmt_nat :: "nat \<Rightarrow> string" where
  "fmt_nat n =
     (if n < 10 then [char_of (48 + n)]
      else fmt_nat (n div 10) @ [char_of (48 + n mod 10)])"

definition fmt_d :: "int \<Rightarrow> string" where
  \<comment> \<open>the verb \<^verbatim>\<open>%d\<close> of \<^verbatim>\<open>fmt.Printf\<close>\<close>
  "fmt_d i = (if i < 0 then CHR ''-'' # fmt_nat (nat (- i)) else fmt_nat (nat i))"

text \<open>
  The callback. \<open>buffer\<close> is the address it is given and \<open>chunk\<close> the \<^verbatim>\<open>bufferLen\<close> bytes
  found there, which \<^verbatim>\<open>C.GoBytes\<close> copies for every track; \<^verbatim>\<open>bufferLen\<close> is the length of
  \<open>chunk\<close>, so it is not negative, as the size of a buffer is. \<open>duration\<close> and
  \<open>pipelineID\<close> are 32-bit \<^verbatim>\<open>C.int\<close> values, read as signed. The result is the panic, if
  any, with the state the call leaves behind: \<^verbatim>\<open>C.free(buffer)\<close> is the last statement and
  is not deferred, so a panic skips it.
\<close>

definition goHandlePipelineBuffer ::
  "extern \<Rightarrow> nat \<Rightarrow> byte list \<Rightarrow> 32 word \<Rightarrow> 32 word \<Rightarrow> bridge \<Rightarrow> (panic + unit) \<times> bridge" where
  "goHandlePipelineBuffer env buffer chunk duration pipelineID s =
     (case map_of (pipelines s) (sint pipelineID) of
        Some pipeline \<Rightarrow>
          (let samples = samples_of env (codecName pipeline) duration;
               (r, lg) = write_tracks env (tracks pipeline)
                           \<lparr>Data = chunk, Samples = samples\<rparr> (writes s)
           in case r of
                Inl p \<Rightarrow> (Inl p, s\<lparr>writes := lg\<rparr>)
              | Inr _ \<Rightarrow> (Inr (), s\<lparr>writes := lg, native := native s @ [Free buffer]\<rparr>))
      | None \<Rightarrow>
          (Inr (),
           s\<lparr>stdout := stdout s
                  @ [''discarding buffer, no pipeline with id '' @ fmt_d (sint pipelineID)],
             native := native s @ [Free buffer]\<rparr>))"

subsection \<open>Runs of the package\<close>

text \<open>
  The states the package can reach: any sequence of calls of its four entry points, from
  the initial state. A call that panics leaves the state it had reached.
\<close>

datatype call =
    Create string "Track list" string
  | StartCall Pipeline
  | StopCall Pipeline
  | Buffer nat "byte list" "32 word" "32 word"

fun exec :: "extern \<Rightarrow> bridge \<Rightarrow> call \<Rightarrow> bridge" where
  "exec env s (Create codec trks src) = snd (CreatePipeline env codec trks src s)"
| "exec env s (StartCall p) = Start p s"
| "exec env s (StopCall p) = Stop p s"
| "exec env s (Buffer buffer chunk duration pipelineID) =
     snd (goHandlePipelineBuffer env buffer chunk duration pipelineID s)"

definition run :: "extern \<Rightarrow> call list \<Rightarrow> bridge" where
  "run env calls = foldl (exec env) init_bridge calls"

definition codecs :: "string set" where
  "codecs = {webrtc_VP8, webrtc_VP9, webrtc_H264, webrtc_Opus, webrtc_G722}"

fun creates :: "call \<Rightarrow> bool" where
  \<comment> \<open>a call of \<^verbatim>\<open>CreatePipeline\<close> with one of the five codecs\<close>
  "creates (Create codec trks src) = (codec \<in> codecs)"
| "creates _ = False"

definition new_writes :: "bridge \<Rightarrow> bridge \<Rightarrow> write_log" where
  \<comment> \<open>the calls of \<^verbatim>\<open>WriteSample\<close> made between two states\<close>
  "new_writes s s' = drop (length (writes s)) (writes s')"

definition frees :: "nat \<Rightarrow> bridge \<Rightarrow> nat" where
  \<comment> \<open>how often \<^verbatim>\<open>C.free\<close> has been called on an address\<close>
  "frees a s = length (filter (\<lambda>c. c = Free a) (native s))"

text \<open>
  The registry invariant: the \<open>i\<close>-th entry has the key \<open>i\<close> and holds the session whose
  \<^verbatim>\<open>id\<close> is \<open>i\<close>.
\<close>

definition reg_inv :: "(int \<times> Pipeline) list \<Rightarrow> bool" where
  "reg_inv ps = (map (\<lambda>(k, p). (k, id' p)) ps = map (\<lambda>i. (int i, int i)) [0..<length ps])"

subsection \<open>A concrete environment\<close>

text \<open>
  An environment to run the model in: the C side numbers its elements, track 13 refuses
  every sample, and an out-of-range conversion gives 0.
\<close>

definition demo_env :: extern where
  "demo_env =
     \<lparr>gstreamer_send_create_pipeline = (\<lambda>cs d. Suc (length cs)),
      WriteSample = (\<lambda>lg t smp. if t = 13 then Some ''closed'' else None),
      uint32_conv = (\<lambda>x. 0)\<rparr>"

definition demo_calls :: "call list" where
  "demo_calls =
     [Create webrtc_Opus [1, 2] ''audiotestsrc'',
      Create webrtc_VP8 [3] ''videotestsrc'',
      Create webrtc_G722 [4] ''audiotestsrc'',
      Create webrtc_H264 [5, 13, 6] ''videotestsrc'']"

definition demo_bridge :: bridge where
  "demo_bridge = run demo_env demo_calls"

text \<open>A second run: one session whose track list names track 1 twice.\<close>

definition twice_calls :: "call list" where
  "twice_calls = [Create webrtc_Opus [1, 1] ''audiotestsrc'']"

definition twice_bridge :: bridge where
  "twice_bridge = run demo_env twice_calls"

section \<open>Lemmas\<close>

subsection \<open>The registry\<close>

lemma codec_names_distinct:
  "distinct [webrtc_VP8, webrtc_VP9, webrtc_H264, webrtc_Opus, webrtc_G722]"
  by (simp add: webrtc_VP8_def webrtc_VP9_def webrtc_H264_def webrtc_Opus_def webrtc_G722_def)

lemma update_fresh: "k \<notin> fst ` set al \<Longrightarrow> AList.update k v al = al @ [(k, v)]"
  by (induction al) auto

lemma len_pipelines:
  "distinct (map fst ps) \<Longrightarrow> length ps = card (dom (map_of ps))"
  by (metis distinct_card dom_map_of_conv_image_fst length_map list.set_map)

lemma reg_inv_keys: "reg_inv ps \<Longrightarrow> map fst ps = map int [0..<length ps]"
proof -
  assume "reg_inv ps"
  then have "map fst (map (\<lambda>(k, p). (k, id' p)) ps) = map fst (map (\<lambda>i. (int i, int i)) [0..<length ps])"
    by (simp only: reg_inv_def)
  then show ?thesis by (simp add: comp_def case_prod_unfold)
qed

lemma reg_inv_ids: "reg_inv ps \<Longrightarrow> map (id' \<circ> snd) ps = map int [0..<length ps]"
proof -
  assume "reg_inv ps"
  then have "map snd (map (\<lambda>(k, p). (k, id' p)) ps) = map snd (map (\<lambda>i. (int i, int i)) [0..<length ps])"
    by (simp only: reg_inv_def)
  then show ?thesis by (simp add: comp_def case_prod_unfold)
qed

lemma reg_inv_fresh: "reg_inv ps \<Longrightarrow> int (length ps) \<notin> fst ` set ps"
proof
  assume inv: "reg_inv ps" and "int (length ps) \<in> fst ` set ps"
  then have "int (length ps) \<in> set (map fst ps)" by simp
  then have "int (length ps) \<in> set (map int [0..<length ps])"
    by (simp only: reg_inv_keys [OF inv])
  then show False by auto
qed

lemma reg_inv_snoc: "reg_inv ps \<Longrightarrow> id' p = int (length ps) \<Longrightarrow> reg_inv (ps @ [(int (length ps), p)])"
  by (simp add: reg_inv_def)

lemma CreatePipeline_panics:
  "codec \<notin> codecs \<Longrightarrow>
   CreatePipeline env codec trks src s = (Inl (PanicString (''Unhandled codec '' @ codec)), s)"
  by (simp add: CreatePipeline_def codecs_def)

lemma CreatePipeline_returns:
  assumes "codec \<in> codecs"
  shows "\<exists>d. CreatePipeline env codec trks src s =
           (Inr \<lparr>Pipeline = gstreamer_send_create_pipeline env (native s) d, tracks = trks,
                 id' = int (length (pipelines s)), codecName = codec\<rparr>,
            s\<lparr>pipelines := AList.update (int (length (pipelines s)))
                  \<lparr>Pipeline = gstreamer_send_create_pipeline env (native s) d, tracks = trks,
                   id' = int (length (pipelines s)), codecName = codec\<rparr> (pipelines s),
              native := native s @ [CreateNative d]\<rparr>)"
  using assms by (auto simp add: CreatePipeline_def codecs_def Let_def)

lemma handler_pipelines:
  "pipelines (snd (goHandlePipelineBuffer env buffer chunk duration pipelineID s)) = pipelines s"
  by (simp add: goHandlePipelineBuffer_def Let_def split: option.split prod.split sum.split)

lemma exec_pipelines:
  assumes "reg_inv (pipelines s)"
  shows "if creates c
         then \<exists>p. id' p = int (length (pipelines s))
                \<and> pipelines (exec env s c) = pipelines s @ [(int (length (pipelines s)), p)]
         else pipelines (exec env s c) = pipelines s"
proof (cases c)
  case (Create codec trks src)
  show ?thesis
  proof (cases "codec \<in> codecs")
    case True
    from CreatePipeline_returns [OF True, where env = env and trks = trks and src = src and s = s] reg_inv_fresh [OF assms]
    show ?thesis using Create True by (auto simp add: update_fresh)
  next
    case False
    then show ?thesis using Create by (simp add: CreatePipeline_panics)
  qed
next
  case (StartCall p)
  then show ?thesis by (simp add: Start_def)
next
  case (StopCall p)
  then show ?thesis by (simp add: Stop_def)
next
  case (Buffer b ch d i)
  then show ?thesis by (simp add: handler_pipelines)
qed

lemma exec_reg_inv: "reg_inv (pipelines s) \<Longrightarrow> reg_inv (pipelines (exec env s c))"
  using exec_pipelines [where s = s and c = c and env = env] by (auto simp add: reg_inv_snoc split: if_splits)

lemma foldl_exec_reg_inv:
  "reg_inv (pipelines s) \<Longrightarrow> reg_inv (pipelines (foldl (exec env) s cs))"
  by (induction cs arbitrary: s) (simp_all add: exec_reg_inv)

lemma foldl_exec_length:
  "reg_inv (pipelines s) \<Longrightarrow>
   length (pipelines (foldl (exec env) s cs)) = length (pipelines s) + length (filter creates cs)"
proof (induction cs arbitrary: s)
  case Nil
  then show ?case by simp
next
  case (Cons c cs)
  have inv': "reg_inv (pipelines (exec env s c))"
    by (rule exec_reg_inv [OF Cons.prems])
  have "length (pipelines (exec env s c)) = length (pipelines s) + (if creates c then 1 else 0)"
    using exec_pipelines [OF Cons.prems, where c = c and env = env] by (auto split: if_splits)
  with Cons.IH [OF inv'] show ?case by simp
qed

lemma run_reg_inv: "reg_inv (pipelines (run env calls))"
  unfolding run_def by (rule foldl_exec_reg_inv) (simp add: init_bridge_def reg_inv_def)

lemma run_length: "length (pipelines (run env calls)) = length (filter creates calls)"
  unfolding run_def using foldl_exec_length [where s = init_bridge and env = env and cs = calls]
  by (simp add: init_bridge_def reg_inv_def)

lemma run_keys_distinct: "distinct (map fst (pipelines (run env calls)))"
  by (simp add: reg_inv_keys [OF run_reg_inv] distinct_map inj_on_def)

subsection \<open>The handler\<close>

lemma write_tracks_all_ok:
  "(\<forall>i<length ts. WriteSample env (lg @ map (\<lambda>t. (t, smp, None)) (take i ts)) (ts ! i) smp = None) \<Longrightarrow>
   write_tracks env ts smp lg = (Inr (), lg @ map (\<lambda>t. (t, smp, None)) ts)"
proof (induction ts arbitrary: lg)
  case Nil
  then show ?case by simp
next
  case (Cons t ts)
  from Cons.prems have first: "WriteSample env lg t smp = None" by fastforce
  have rest: "\<forall>i<length ts. WriteSample env ((lg @ [(t, smp, None)]) @ map (\<lambda>t. (t, smp, None)) (take i ts)) (ts ! i) smp = None"
  proof (intro allI impI)
    fix i assume "i < length ts"
    then have "Suc i < length (t # ts)" by simp
    with Cons.prems
    have "WriteSample env (lg @ map (\<lambda>t. (t, smp, None)) (take (Suc i) (t # ts))) ((t # ts) ! Suc i) smp = None"
      by blast
    then show "WriteSample env ((lg @ [(t, smp, None)]) @ map (\<lambda>t. (t, smp, None)) (take i ts)) (ts ! i) smp = None"
      by simp
  qed
  from Cons.IH [OF rest] first show ?case by simp
qed

lemma write_tracks_fails:
  "k < length ts \<Longrightarrow>
   (\<forall>i<k. WriteSample env (lg @ map (\<lambda>t. (t, smp, None)) (take i ts)) (ts ! i) smp = None) \<Longrightarrow>
   WriteSample env (lg @ map (\<lambda>t. (t, smp, None)) (take k ts)) (ts ! k) smp = Some err \<Longrightarrow>
   write_tracks env ts smp lg =
     (Inl (PanicError err), lg @ map (\<lambda>t. (t, smp, None)) (take k ts) @ [(ts ! k, smp, Some err)])"
proof (induction ts arbitrary: lg k)
  case Nil
  then show ?case by simp
next
  case (Cons t ts)
  show ?case
  proof (cases k)
    case 0
    with Cons.prems show ?thesis by simp
  next
    case (Suc j)
    with Cons.prems have j: "j < length ts" by simp
    from Cons.prems(2) Suc have first: "WriteSample env lg t smp = None" by fastforce
    have before: "\<forall>i<j. WriteSample env ((lg @ [(t, smp, None)]) @ map (\<lambda>t. (t, smp, None)) (take i ts)) (ts ! i) smp = None"
    proof (intro allI impI)
      fix i assume "i < j"
      then have "Suc i < k" using Suc by simp
      with Cons.prems(2)
      have "WriteSample env (lg @ map (\<lambda>t. (t, smp, None)) (take (Suc i) (t # ts))) ((t # ts) ! Suc i) smp = None"
        by blast
      then show "WriteSample env ((lg @ [(t, smp, None)]) @ map (\<lambda>t. (t, smp, None)) (take i ts)) (ts ! i) smp = None"
        by simp
    qed
    from Cons.prems(3) Suc
    have at: "WriteSample env ((lg @ [(t, smp, None)]) @ map (\<lambda>t. (t, smp, None)) (take j ts)) (ts ! j) smp = Some err"
      by simp
    from Cons.IH [OF j before at] first Suc show ?thesis by simp
  qed
qed

lemma write_tracks_entries:
  "\<exists>new. snd (write_tracks env ts smp lg) = lg @ new
         \<and> (\<forall>c\<in>set new. fst c \<in> set ts \<and> fst (snd c) = smp)"
proof (induction ts arbitrary: lg)
  case Nil
  then show ?case by simp
next
  case (Cons t ts)
  show ?case
  proof (cases "WriteSample env lg t smp")
    case None
    from Cons.IH [of "lg @ [(t, smp, None)]"]
    obtain new where "snd (write_tracks env ts smp (lg @ [(t, smp, None)])) = (lg @ [(t, smp, None)]) @ new"
      and "\<forall>c\<in>set new. fst c \<in> set ts \<and> fst (snd c) = smp"
      by blast
    with None show ?thesis
      by (intro exI [of _ "(t, smp, None) # new"]) simp
  next
    case (Some err)
    then show ?thesis by simp
  qed
qed

lemma handler_registered:
  assumes "map_of (pipelines s) (sint pipelineID) = Some p"
  shows "goHandlePipelineBuffer env buffer chunk duration pipelineID s =
     (case write_tracks env (tracks p)
             \<lparr>Data = chunk, Samples = samples_of env (codecName p) duration\<rparr> (writes s) of
        (Inl e, lg) \<Rightarrow> (Inl e, s\<lparr>writes := lg\<rparr>)
      | (Inr _, lg) \<Rightarrow> (Inr (), s\<lparr>writes := lg, native := native s @ [Free buffer]\<rparr>))"
  using assms by (simp add: goHandlePipelineBuffer_def Let_def split: prod.split sum.split)

lemma handler_unregistered:
  assumes "map_of (pipelines s) (sint pipelineID) = None"
  shows "goHandlePipelineBuffer env buffer chunk duration pipelineID s =
     (Inr (),
      s\<lparr>stdout := stdout s @ [''discarding buffer, no pipeline with id '' @ fmt_d (sint pipelineID)],
        native := native s @ [Free buffer]\<rparr>)"
  using assms by (simp add: goHandlePipelineBuffer_def)

lemma handler_new_writes:
  assumes "map_of (pipelines s) (sint pipelineID) = Some p"
    and "c \<in> set (new_writes s (snd (goHandlePipelineBuffer env buffer chunk duration pipelineID s)))"
  shows "fst c \<in> set (tracks p)"
    and "fst (snd c) = \<lparr>Data = chunk, Samples = samples_of env (codecName p) duration\<rparr>"
proof -
  let ?smp = "\<lparr>Data = chunk, Samples = samples_of env (codecName p) duration\<rparr>"
  from write_tracks_entries [of env "tracks p" ?smp "writes s"]
  obtain new where new: "snd (write_tracks env (tracks p) ?smp (writes s)) = writes s @ new"
    and all: "\<forall>c\<in>set new. fst c \<in> set (tracks p) \<and> fst (snd c) = ?smp"
    by blast
  have "writes (snd (goHandlePipelineBuffer env buffer chunk duration pipelineID s))
          = snd (write_tracks env (tracks p) ?smp (writes s))"
    by (simp add: handler_registered [OF assms(1)] split: prod.split sum.split)
  then have "new_writes s (snd (goHandlePipelineBuffer env buffer chunk duration pipelineID s)) = new"
    by (simp add: new_writes_def new)
  with assms(2) all show "fst c \<in> set (tracks p)" and "fst (snd c) = ?smp"
    by simp_all
qed

lemma handler_frees:
  "frees buffer (snd (goHandlePipelineBuffer env buffer chunk duration pipelineID s))
     = (case fst (goHandlePipelineBuffer env buffer chunk duration pipelineID s) of
          Inl e \<Rightarrow> frees buffer s
        | Inr u \<Rightarrow> Suc (frees buffer s))"
  by (simp add: goHandlePipelineBuffer_def frees_def Let_def
      split: option.split prod.split sum.split)

subsection \<open>Rounding to single precision\<close>

lemma pow2_pos: "0 < pow2 e"
  by (simp add: pow2_def)

lemma pow2_add: "pow2 (a + b) = pow2 a * pow2 b"
  by (simp add: pow2_def power_int_add)

lemma pow2_diff: "pow2 (a - b) = pow2 a / pow2 b"
  by (simp add: pow2_def power_int_diff)

lemma pow2_nat: "0 \<le> e \<Longrightarrow> pow2 e = 2 ^ nat e"
  by (simp add: pow2_def power_int_def)

lemma pow2_strict_mono: "a < b \<Longrightarrow> pow2 a < pow2 b"
  by (simp add: pow2_def power_int_strict_increasing)

lemma pow2_less_iff: "pow2 a < pow2 b \<longleftrightarrow> a < b"
  using pow2_strict_mono [of a b] pow2_strict_mono [of b a]
  by (cases a b rule: linorder_cases) auto

lemma bitlen_pow2_bounds:
  assumes "0 < n"
  shows "pow2 (bitlen n - 1) \<le> of_int n" and "of_int n < pow2 (bitlen n)"
proof -
  from bitlen_bounds [OF assms]
  have lo: "2 ^ nat (bitlen n - 1) \<le> n" and hi: "n < 2 ^ nat (bitlen n)" by simp_all
  have pos: "1 \<le> bitlen n" using assms by (simp add: bitlen_alt_def)
  have "(of_int (2 ^ nat (bitlen n - 1)) :: rat) \<le> of_int n"
    using lo by (simp only: of_int_le_iff)
  then show "pow2 (bitlen n - 1) \<le> of_int n"
    using pos by (simp add: pow2_nat)
  have "(of_int n :: rat) < of_int (2 ^ nat (bitlen n))"
    using hi by (simp only: of_int_less_iff)
  then show "of_int n < pow2 (bitlen n)"
    using pos by (simp add: pow2_nat)
qed

lemma ilog2_bounds:
  assumes "0 < x"
  shows "pow2 (ilog2 x) \<le> x \<and> x < pow2 (ilog2 x + 1)"
proof -
  obtain p q where pq: "quotient_of x = (p, q)" by (cases "quotient_of x")
  have q: "0 < q" using pq by (rule quotient_of_denom_pos)
  have x: "x = of_int p / of_int q" using pq by (rule quotient_of_div)
  have p: "0 < p" using assms q x by (simp add: zero_less_divide_iff)
  note bp = bitlen_pow2_bounds [OF p] and bq = bitlen_pow2_bounds [OF q]
  have qr: "(0::rat) < of_int q" using q by simp
  let ?k = "bitlen p - bitlen q"
  show ?thesis
  proof (cases "pow2 ?k \<le> x")
    case True
    then have i: "ilog2 x = ?k" by (simp add: ilog2_def pq)
    have "of_int p < pow2 (bitlen p)" by (rule bp(2))
    also have "\<dots> = pow2 (?k + 1) * pow2 (bitlen q - 1)"
      by (simp add: pow2_add [symmetric])
    also have "\<dots> \<le> pow2 (?k + 1) * of_int q"
      using bq(1) pow2_pos [of "?k + 1"] by (simp add: mult_left_mono)
    finally have "x < pow2 (?k + 1)"
      using qr by (simp add: x pos_divide_less_eq)
    with True i show ?thesis by simp
  next
    case False
    then have i: "ilog2 x = ?k - 1" by (simp add: ilog2_def pq)
    have "pow2 (?k - 1) * of_int q \<le> pow2 (?k - 1) * pow2 (bitlen q)"
      using bq(2) pow2_pos [of "?k - 1"] by (simp add: mult_left_mono)
    also have "\<dots> = pow2 (bitlen p - 1)"
      by (simp add: pow2_add [symmetric])
    also have "\<dots> \<le> of_int p" by (rule bp(1))
    finally have "pow2 (?k - 1) \<le> x"
      using qr by (simp add: x pos_le_divide_eq)
    with False i show ?thesis by simp
  qed
qed

lemma ilog2_ge: "pow2 k \<le> x \<Longrightarrow> k \<le> ilog2 x"
proof -
  assume k: "pow2 k \<le> x"
  then have "0 < x" using pow2_pos [of k] by simp
  from ilog2_bounds [OF this] k have "pow2 k < pow2 (ilog2 x + 1)" by simp
  then show ?thesis by (simp add: pow2_less_iff)
qed

lemma round_half_even_close: "\<bar>of_int (round_half_even y) - y\<bar> \<le> 1 / 2"
proof -
  have "of_int \<lfloor>y\<rfloor> \<le> y" "y < of_int \<lfloor>y\<rfloor> + 1" by linarith+
  then show ?thesis by (auto simp add: round_half_even_def Let_def)
qed

lemma round_half_even_nonneg: "0 \<le> y \<Longrightarrow> 0 \<le> round_half_even y"
  by (auto simp add: round_half_even_def Let_def)

lemma f32_round_nonneg: "0 \<le> x \<Longrightarrow> 0 \<le> f32_round x"
  using pow2_pos by (auto simp add: f32_round_def Let_def round_half_even_nonneg pow2_pos less_imp_le)

lemma f32_round_zero: "f32_round 0 = 0"
  by (simp add: f32_round_def)

lemma f32_round_error:
  assumes "pow2 (- 126) \<le> \<bar>x\<bar>"
  shows "\<bar>f32_round x - x\<bar> \<le> \<bar>x\<bar> / 2 ^ 24"
proof -
  let ?e = "ilog2 \<bar>x\<bar> - 23"
  have x0: "x \<noteq> 0" using assms pow2_pos [of "- 126"] by auto
  have "- 126 \<le> ilog2 \<bar>x\<bar>" using assms by (rule ilog2_ge)
  then have e: "max ?e (- 149) = ?e" by simp
  have pe: "0 < pow2 ?e" by (rule pow2_pos)
  let ?m = "\<bar>x\<bar> / pow2 ?e"
  have fx: "f32_round x = sgn x * of_int (round_half_even ?m) * pow2 ?e"
    using x0 by (simp add: f32_round_def Let_def e del: max.absorb1 max.absorb2 max.absorb3 max.absorb4)
  have xs: "x = sgn x * ?m * pow2 ?e"
    using pe by (simp add: sgn_mult_abs)
  have "f32_round x - x = sgn x * (of_int (round_half_even ?m) - ?m) * pow2 ?e"
    by (subst fx, subst (2) xs) (simp add: algebra_simps)
  then have "\<bar>f32_round x - x\<bar> = \<bar>of_int (round_half_even ?m) - ?m\<bar> * pow2 ?e"
    using pe x0 by (simp add: abs_mult abs_sgn_eq)
  also have "\<dots> \<le> 1 / 2 * pow2 ?e"
    using round_half_even_close [of ?m] pe by (simp add: mult_right_mono)
  also have "pow2 ?e = pow2 (ilog2 \<bar>x\<bar>) / 2 ^ 23"
    by (simp add: pow2_diff pow2_nat)
  also have "1 / 2 * (pow2 (ilog2 \<bar>x\<bar>) / 2 ^ 23) = pow2 (ilog2 \<bar>x\<bar>) / 2 ^ 24"
    by simp
  also have "\<dots> \<le> \<bar>x\<bar> / 2 ^ 24"
    using ilog2_bounds [of "\<bar>x\<bar>"] x0 by (simp add: divide_right_mono)
  finally show ?thesis .
qed

lemma pow2_min_normal: "pow2 (- 126) \<le> 1 / 2 ^ 64"
proof -
  have "pow2 (- 126) \<le> pow2 (- 64)"
    using pow2_strict_mono [of "- 126" "- 64"] by simp
  also have "pow2 (- 64) = 1 / 2 ^ 64"
    by (simp add: pow2_def power_int_def field_simps)
  finally show ?thesis .
qed

lemma f32_round_rel:
  assumes "1 / 2 ^ 64 \<le> x"
  shows "x * (1 - 1 / 2 ^ 24) \<le> f32_round x" and "f32_round x \<le> x * (1 + 1 / 2 ^ 24)"
proof -
  have pos: "0 < x" using assms by (rule less_le_trans [rotated]) simp
  then have "pow2 (- 126) \<le> \<bar>x\<bar>" using pow2_min_normal assms by simp
  from f32_round_error [OF this] pos have "\<bar>f32_round x - x\<bar> \<le> x / 2 ^ 24" by simp
  then have e: "x - f32_round x \<le> x / 2 ^ 24" "f32_round x - x \<le> x / 2 ^ 24"
    by linarith+
  have lo: "x * (1 - 1 / 2 ^ 24) = x - x / 2 ^ 24" and hi: "x * (1 + 1 / 2 ^ 24) = x + x / 2 ^ 24"
    by (simp_all add: algebra_simps)
  show "x * (1 - 1 / 2 ^ 24) \<le> f32_round x"
    unfolding lo using e(1) by linarith
  show "f32_round x \<le> x * (1 + 1 / 2 ^ 24)"
    unfolding hi using e(2) by linarith
qed

text \<open>Three roundings in a row: the conversion, the division and the multiplication.\<close>

lemma f32_chain:
  fixes r :: rat and d :: int
  assumes r: "1 \<le> r" and d: "1 \<le> d"
  defines "ex \<equiv> r * of_int d / 1000000000"
  defines "v \<equiv> f32_mul r (f32_div (f32_of_int d) 1000000000)"
  shows "ex * (1 - 1 / 2 ^ 24) ^ 3 \<le> v" and "v \<le> ex * (1 + 1 / 2 ^ 24) ^ 3"
proof -
  let ?lo = "1 - 1 / 2 ^ 24 :: rat" and ?hi = "1 + 1 / 2 ^ 24 :: rat"
  have lo: "0 < ?lo" "1 / 2 \<le> ?lo" and hi: "0 < ?hi" by simp_all
  let ?a = "f32_of_int d"
  let ?q = "f32_div ?a 1000000000"
  have d1: "(1::rat) \<le> of_int d" using d by simp
  then have "(1::rat) / 2 ^ 64 \<le> of_int d" by (rule order_trans [rotated]) simp
  from f32_round_rel [OF this]
  have a: "of_int d * ?lo \<le> ?a" "?a \<le> of_int d * ?hi" by (simp_all add: f32_of_int_def)
  have "1 * (1 / 2) \<le> of_int d * ?lo"
    by (rule mult_mono) (use d1 lo in simp_all)
  with a(1) have a_half: "1 / 2 \<le> ?a" by simp
  then have "1 / 2 ^ 64 \<le> ?a / 1000000000" by simp
  from f32_round_rel [OF this]
  have q0: "?a / 1000000000 * ?lo \<le> ?q" "?q \<le> ?a / 1000000000 * ?hi"
    by (simp_all add: f32_div_def)
  have q: "of_int d / 1000000000 * ?lo ^ 2 \<le> ?q" "?q \<le> of_int d / 1000000000 * ?hi ^ 2"
  proof -
    have "of_int d / 1000000000 * ?lo ^ 2 = (of_int d * ?lo) / 1000000000 * ?lo"
      by (simp add: power2_eq_square)
    also have "\<dots> \<le> ?a / 1000000000 * ?lo"
      using a(1) lo(1) by (intro mult_right_mono divide_right_mono) simp_all
    also note q0(1)
    finally show "of_int d / 1000000000 * ?lo ^ 2 \<le> ?q" .
    note q0(2)
    also have "?a / 1000000000 * ?hi \<le> (of_int d * ?hi) / 1000000000 * ?hi"
      using a(2) hi by (intro mult_right_mono divide_right_mono) simp_all
    also have "\<dots> = of_int d / 1000000000 * ?hi ^ 2"
      by (simp add: power2_eq_square)
    finally show "?q \<le> of_int d / 1000000000 * ?hi ^ 2" .
  qed
  have "1 / 2 / 1000000000 * (1 / 2) \<le> ?a / 1000000000 * ?lo"
    by (rule mult_mono) (use a_half lo in simp_all)
  with q0(1) have q_low: "1 / 4000000000 \<le> ?q" by simp
  have "1 * (1 / 4000000000) \<le> r * ?q"
    by (rule mult_mono) (use r q_low in simp_all)
  then have "1 / 2 ^ 64 \<le> r * ?q" by simp
  from f32_round_rel [OF this]
  have v0: "r * ?q * ?lo \<le> v" "v \<le> r * ?q * ?hi" by (simp_all add: v_def f32_mul_def)
  have r0: "0 \<le> r" using r by simp
  have "ex * ?lo ^ 3 = r * (of_int d / 1000000000 * ?lo ^ 2) * ?lo"
    by (simp add: ex_def power3_eq_cube power2_eq_square)
  also have "\<dots> \<le> r * ?q * ?lo"
    using q(1) r0 lo(1) by (intro mult_right_mono mult_left_mono) simp_all
  also note v0(1)
  finally show "ex * ?lo ^ 3 \<le> v" .
  note v0(2)
  also have "r * ?q * ?hi \<le> r * (of_int d / 1000000000 * ?hi ^ 2) * ?hi"
    using q(2) r0 hi by (intro mult_right_mono mult_left_mono) simp_all
  also have "\<dots> = ex * ?hi ^ 3"
    by (simp add: ex_def power3_eq_cube power2_eq_square)
  finally show "v \<le> ex * ?hi ^ 3" .
qed

lemma cube_lo: "(1 - 1 / 2 ^ 22 :: rat) \<le> (1 - 1 / 2 ^ 24) ^ 3"
  by (simp add: power_divide)

lemma cube_hi: "(1 + 1 / 2 ^ 24 :: rat) ^ 3 \<le> 1 + 1 / 2 ^ 22"
  by (simp add: power_divide)

lemma f32_chain_close:
  fixes r :: rat and d :: int
  assumes r1: "1 \<le> r" and r9: "r \<le> 90000" and d0: "0 \<le> d" and d31: "d < 2 ^ 31"
  defines "ex \<equiv> r * of_int d / 1000000000"
  defines "v \<equiv> f32_mul r (f32_div (f32_of_int d) 1000000000)"
  shows "ex - 1 / 16 \<le> v" and "v \<le> ex + 1 / 16" and "0 \<le> v" and "v < 2 ^ 32"
proof -
  have r0: "0 \<le> r" using r1 by simp
  have dq: "(0 :: rat) \<le> of_int d" using d0 by simp
  have "(of_int d :: rat) \<le> of_int (2 ^ 31)"
    using d31 by (simp only: of_int_le_iff)
  then have dr: "(of_int d :: rat) \<le> 2 ^ 31" by simp
  have "r * of_int d \<le> 90000 * 2 ^ 31"
    by (rule mult_mono) (use r9 dr dq in simp_all)
  then have ex_hi: "ex \<le> 193274" by (simp add: ex_def)
  have ex_lo: "0 \<le> ex" using r0 dq by (simp add: ex_def)
  show nonneg: "0 \<le> v"
    using r0 dq by (simp add: v_def f32_mul_def f32_div_def f32_of_int_def f32_round_nonneg)
  have both: "ex - 1 / 16 \<le> v \<and> v \<le> ex + 1 / 16"
  proof (cases "d = 0")
    case True
    then show ?thesis
      by (simp add: ex_def v_def f32_mul_def f32_div_def f32_of_int_def f32_round_zero)
  next
    case False
    with d0 have d1: "1 \<le> d" by simp
    have slack: "ex / 2 ^ 22 \<le> 1 / 16" using ex_hi by simp
    from f32_chain [OF r1 d1]
    have lo: "ex * (1 - 1 / 2 ^ 24) ^ 3 \<le> v" and hi: "v \<le> ex * (1 + 1 / 2 ^ 24) ^ 3"
      by (simp_all only: ex_def v_def)
    have "ex * (1 - 1 / 2 ^ 22) \<le> ex * (1 - 1 / 2 ^ 24) ^ 3"
      by (rule mult_left_mono [OF cube_lo ex_lo])
    with lo have "ex * (1 - 1 / 2 ^ 22) \<le> v" by (rule order_trans [rotated])
    moreover have "ex * (1 - 1 / 2 ^ 22) = ex - ex / 2 ^ 22" by (simp add: algebra_simps)
    ultimately have l: "ex - ex / 2 ^ 22 \<le> v" by simp
    have "ex * (1 + 1 / 2 ^ 24) ^ 3 \<le> ex * (1 + 1 / 2 ^ 22)"
      by (rule mult_left_mono [OF cube_hi ex_lo])
    with hi have "v \<le> ex * (1 + 1 / 2 ^ 22)" by (rule order_trans)
    moreover have "ex * (1 + 1 / 2 ^ 22) = ex + ex / 2 ^ 22" by (simp add: algebra_simps)
    ultimately have h: "v \<le> ex + ex / 2 ^ 22" by simp
    from l h slack show ?thesis by linarith
  qed
  from both show "ex - 1 / 16 \<le> v" and "v \<le> ex + 1 / 16" by simp_all
  with ex_hi show "v < 2 ^ 32" by simp
qed

lemma samples_f32_rate:
  "samples_f32 codec duration =
     f32_mul (if codec = webrtc_Opus then 48000 else 90000)
       (f32_div (f32_of_int (sint duration)) 1000000000)"
  by (simp add: samples_f32_def audioClockRate_def videoClockRate_def)

lemma samples_f32_close:
  fixes duration :: "32 word" and codec :: string
  assumes "0 \<le> sint duration"
  shows "(if codec = webrtc_Opus then 48000 else 90000) * of_int (sint duration) / 1000000000 - 1 / 16
           \<le> samples_f32 codec duration"
    and "samples_f32 codec duration
           \<le> (if codec = webrtc_Opus then 48000 else 90000) * of_int (sint duration) / 1000000000 + 1 / 16"
    and "0 \<le> samples_f32 codec duration"
    and "samples_f32 codec duration < 2 ^ 32"
proof -
  let ?r = "if codec = webrtc_Opus then 48000 else 90000 :: rat"
  have r: "1 \<le> ?r" "?r \<le> 90000" by simp_all
  have d: "sint duration < 2 ^ 31" using sint_lt [of duration] by simp
  note c = f32_chain_close [OF r assms d]
  show "?r * of_int (sint duration) / 1000000000 - 1 / 16 \<le> samples_f32 codec duration"
    unfolding samples_f32_rate by (rule c(1))
  show "samples_f32 codec duration \<le> ?r * of_int (sint duration) / 1000000000 + 1 / 16"
    unfolding samples_f32_rate by (rule c(2))
  show "0 \<le> samples_f32 codec duration"
    unfolding samples_f32_rate by (rule c(3))
  show "samples_f32 codec duration < 2 ^ 32"
    unfolding samples_f32_rate by (rule c(4))
qed

lemma samples_of_floor:
  fixes duration :: "32 word"
  assumes "0 \<le> sint duration"
  shows "samples_of env codec duration = word_of_int \<lfloor>samples_f32 codec duration\<rfloor>"
    and "uint (samples_of env codec duration) = \<lfloor>samples_f32 codec duration\<rfloor>"
proof -
  note r = samples_f32_close(3,4) [OF assms, of codec]
  have f0: "0 \<le> \<lfloor>samples_f32 codec duration\<rfloor>" using r(1) by simp
  have f1: "\<lfloor>samples_f32 codec duration\<rfloor> < 2 ^ 32"
    using r(2) by (simp add: floor_less_iff)
  show w: "samples_of env codec duration = word_of_int \<lfloor>samples_f32 codec duration\<rfloor>"
    using r(1) f0 f1 by (simp add: samples_of_def uint32_of_f32_def trunc_rat_def)
  show "uint (samples_of env codec duration) = \<lfloor>samples_f32 codec duration\<rfloor>"
    unfolding w using f0 f1 by (simp add: uint_word_of_int take_bit_int_eq_self)
qed

lemma opus_20ms: "samples_of env webrtc_Opus 20000000 = 960"
  by code_simp

lemma vp8_33ms: "samples_of env webrtc_VP8 33333333 = 2999"
  by code_simp

subsection \<open>The concrete run\<close>

lemma demo_pipelines: "pipelines demo_bridge =
    [(0, \<lparr>Pipeline = 2, tracks = [1, 2], id' = 0, codecName = webrtc_Opus\<rparr>),
     (1, \<lparr>Pipeline = 3, tracks = [3], id' = 1, codecName = webrtc_VP8\<rparr>),
     (2, \<lparr>Pipeline = 4, tracks = [4], id' = 2, codecName = webrtc_G722\<rparr>),
     (3, \<lparr>Pipeline = 5, tracks = [5, 13, 6], id' = 3, codecName = webrtc_H264\<rparr>)]"
  by code_simp

lemma demo_writes: "writes demo_bridge = []"
  by code_simp

lemma demo_WriteSample: "WriteSample demo_env lg t smp = (if t = 13 then Some ''closed'' else None)"
  by (simp add: demo_env_def)

section \<open>Properties\<close>

text \<open>
  C1: the sample count of a registered session is to be computed with 48000 Hz for the
  audio codecs Opus and G722 and with 90000 Hz for the video codecs. The handler compares
  the codec with \<^verbatim>\<open>webrtc.Opus\<close> only, so a G722 session takes the branch of
  \<^verbatim>\<open>videoClockRate\<close>: for the third session of the concrete run, a G722 session, a chunk
  of 20 ms is written with 1800 samples, the count for 90000 Hz, where 48000 Hz gives 960.
\<close>

theorem g722_gets_video_clock_rate:
  "map_of (pipelines demo_bridge) (sint (2 :: 32 word))
     = Some \<lparr>Pipeline = 4, tracks = [4], id' = 2, codecName = webrtc_G722\<rparr>
   \<and> new_writes demo_bridge
        (snd (goHandlePipelineBuffer demo_env 7 [1, 2, 3] 20000000 2 demo_bridge))
       = [(4, \<lparr>Data = [1, 2, 3], Samples = 1800\<rparr>, None)]
   \<and> uint32_of_f32 (uint32_conv demo_env)
        (f32_mul videoClockRate (f32_div (f32_of_int 20000000) 1000000000)) = 1800
   \<and> uint32_of_f32 (uint32_conv demo_env)
        (f32_mul audioClockRate (f32_div (f32_of_int 20000000) 1000000000)) = 960"
  by code_simp

text \<open>
  C2, as the code has it: for a registered Opus, VP8, VP9 or H264 session and a duration
  that is not negative, the sample count of every write is the single-precision value of
  \<open>rate * (float32 duration / 10 ^ 9)\<close> with its fraction dropped, \<open>rate\<close> being 48000 for
  Opus and 90000 for the video codecs. It lies above the exact quotient minus \<open>17 / 16\<close>
  and at most \<open>1 / 16\<close> above it. An Opus session and 20000000 ns give 960; a VP8 session
  and 33333333 ns give 2999.
\<close>

theorem sample_count_truncates:
  assumes "map_of (pipelines s) (sint pipelineID) = Some p"
    and "0 \<le> sint duration"
    and "c \<in> set (new_writes s (snd (goHandlePipelineBuffer env buffer chunk duration pipelineID s)))"
    and "(codecName p = webrtc_Opus \<and> rate = 48000)
         \<or> (codecName p \<in> {webrtc_VP8, webrtc_VP9, webrtc_H264} \<and> rate = 90000)"
  shows "uint (Samples (fst (snd c)))
           = \<lfloor>f32_mul rate (f32_div (f32_of_int (sint duration)) 1000000000)\<rfloor>
       \<and> rate * rat_of_int (sint duration) / 1000000000 - 17 / 16
           < rat_of_int (uint (Samples (fst (snd c))))
       \<and> rat_of_int (uint (Samples (fst (snd c))))
           \<le> rate * rat_of_int (sint duration) / 1000000000 + 1 / 16
       \<and> (codecName p = webrtc_Opus \<and> duration = 20000000 \<longrightarrow> Samples (fst (snd c)) = 960)
       \<and> (codecName p = webrtc_VP8 \<and> duration = 33333333 \<longrightarrow> Samples (fst (snd c)) = 2999)"
proof -
  let ?v = "samples_f32 (codecName p) duration"
  let ?ex = "rate * rat_of_int (sint duration) / 1000000000"
  have rate: "rate = (if codecName p = webrtc_Opus then 48000 else 90000)"
    using assms(4) codec_names_distinct by auto
  have smp: "Samples (fst (snd c)) = samples_of env (codecName p) duration"
    using handler_new_writes(2) [OF assms(1) assms(3)] by simp
  have v: "?v = f32_mul rate (f32_div (f32_of_int (sint duration)) 1000000000)"
    unfolding rate by (rule samples_f32_rate)
  have fl: "uint (Samples (fst (snd c))) = \<lfloor>?v\<rfloor>"
    unfolding smp by (rule samples_of_floor(2) [OF assms(2)])
  have lo: "?ex - 1 / 16 \<le> ?v" and hi: "?v \<le> ?ex + 1 / 16"
    unfolding rate by (rule samples_f32_close(1,2) [OF assms(2)])+
  have f1: "?v - 1 < rat_of_int \<lfloor>?v\<rfloor>" and f2: "rat_of_int \<lfloor>?v\<rfloor> \<le> ?v"
    by linarith+
  have b1: "?ex - 17 / 16 < rat_of_int \<lfloor>?v\<rfloor>" using lo f1 by linarith
  have b2: "rat_of_int \<lfloor>?v\<rfloor> \<le> ?ex + 1 / 16" using hi f2 by linarith
  have o: "codecName p = webrtc_Opus \<and> duration = 20000000 \<longrightarrow> Samples (fst (snd c)) = 960"
    unfolding smp by (auto simp add: opus_20ms)
  have w: "codecName p = webrtc_VP8 \<and> duration = 33333333 \<longrightarrow> Samples (fst (snd c)) = 2999"
    unfolding smp by (auto simp add: vp8_33ms)
  from fl b1 b2 o w show ?thesis by (simp only: v [symmetric] fl simp_thms)
qed

theorem sample_count_truncates_witness:
  "map_of (pipelines demo_bridge) (sint (1 :: 32 word))
     = Some \<lparr>Pipeline = 3, tracks = [3], id' = 1, codecName = webrtc_VP8\<rparr>
   \<and> (0 :: int) \<le> sint (33333333 :: 32 word)
   \<and> (3, \<lparr>Data = [1, 2, 3], Samples = 2999\<rparr>, None)
       \<in> set (new_writes demo_bridge
                (snd (goHandlePipelineBuffer demo_env 7 [1, 2, 3] 33333333 1 demo_bridge)))
   \<and> \<lfloor>f32_mul 90000 (f32_div (f32_of_int (sint (33333333 :: 32 word))) 1000000000)\<rfloor> = 2999
   \<and> map_of (pipelines demo_bridge) (sint (0 :: 32 word))
       = Some \<lparr>Pipeline = 2, tracks = [1, 2], id' = 0, codecName = webrtc_Opus\<rparr>
   \<and> (0 :: int) \<le> sint (20000000 :: 32 word)
   \<and> (2, \<lparr>Data = [1, 2, 3], Samples = 960\<rparr>, None)
       \<in> set (new_writes demo_bridge
                (snd (goHandlePipelineBuffer demo_env 7 [1, 2, 3] 20000000 0 demo_bridge)))
   \<and> \<lfloor>f32_mul 48000 (f32_div (f32_of_int (sint (20000000 :: 32 word))) 1000000000)\<rfloor> = 960"
proof -
  let ?p = "\<lparr>Pipeline = 3, tracks = [3], id' = 1, codecName = webrtc_VP8\<rparr>"
  let ?c = "(3 :: nat, \<lparr>Data = [1, 2, 3 :: byte], Samples = 2999\<rparr>, None :: string option)"
  let ?q = "\<lparr>Pipeline = 2, tracks = [1, 2], id' = 0, codecName = webrtc_Opus\<rparr>"
  let ?d = "(2 :: nat, \<lparr>Data = [1, 2, 3 :: byte], Samples = 960\<rparr>, None :: string option)"
  have h1: "map_of (pipelines demo_bridge) (sint (1 :: 32 word)) = Some ?p"
    by (simp add: demo_pipelines)
  have h2: "(0 :: int) \<le> sint (33333333 :: 32 word)" by simp
  have h3: "?c \<in> set (new_writes demo_bridge
                (snd (goHandlePipelineBuffer demo_env 7 [1, 2, 3] 33333333 1 demo_bridge)))"
    by code_simp
  have h4: "(codecName ?p = webrtc_Opus \<and> (90000 :: rat) = 48000)
            \<or> (codecName ?p \<in> {webrtc_VP8, webrtc_VP9, webrtc_H264} \<and> (90000 :: rat) = 90000)"
    by simp
  have g1: "map_of (pipelines demo_bridge) (sint (0 :: 32 word)) = Some ?q"
    by (simp add: demo_pipelines)
  have g2: "(0 :: int) \<le> sint (20000000 :: 32 word)" by simp
  have g3: "?d \<in> set (new_writes demo_bridge
                (snd (goHandlePipelineBuffer demo_env 7 [1, 2, 3] 20000000 0 demo_bridge)))"
    by code_simp
  have g4: "(codecName ?q = webrtc_Opus \<and> (48000 :: rat) = 48000)
            \<or> (codecName ?q \<in> {webrtc_VP8, webrtc_VP9, webrtc_H264} \<and> (48000 :: rat) = 90000)"
    by simp
  from sample_count_truncates [OF h1 h2 h3 h4] sample_count_truncates [OF g1 g2 g3 g4]
    h1 h2 h3 g1 g2 g3
  show ?thesis by simp
qed

text \<open>
  C2, as the claim states it, fails: for the VP8 session of the concrete run and a duration
  of 33333333 ns the handler writes 2999 samples, not 3000, the integer nearest to
  \<open>90000 * 33333333 / 10 ^ 9\<close>.
\<close>

theorem vp8_sample_count_counterexample:
  "map_of (pipelines demo_bridge) (sint (1 :: 32 word))
     = Some \<lparr>Pipeline = 3, tracks = [3], id' = 1, codecName = webrtc_VP8\<rparr>
   \<and> new_writes demo_bridge
        (snd (goHandlePipelineBuffer demo_env 7 [1, 2, 3] 33333333 1 demo_bridge))
       = [(3, \<lparr>Data = [1, 2, 3], Samples = 2999\<rparr>, None)]
   \<and> (2999 :: 32 word) \<noteq> 3000
   \<and> round (90000 * 33333333 / 1000000000 :: rat) = 3000"
  by code_simp

text \<open>
  C3: a buffer for a \<^verbatim>\<open>pipelineID\<close> that is not in the registry makes the handler return
  normally (no panic); it calls \<^verbatim>\<open>WriteSample\<close> on no track, prints the notice and frees
  the buffer.
\<close>

theorem unknown_pipeline_discards:
  assumes "map_of (pipelines s) (sint pipelineID) = None"
  shows "goHandlePipelineBuffer env buffer chunk duration pipelineID s =
           (Inr (),
            s\<lparr>stdout := stdout s
                  @ [''discarding buffer, no pipeline with id '' @ fmt_d (sint pipelineID)],
              native := native s @ [Free buffer]\<rparr>)
         \<and> fst (goHandlePipelineBuffer env buffer chunk duration pipelineID s) = Inr ()
         \<and> writes (snd (goHandlePipelineBuffer env buffer chunk duration pipelineID s)) = writes s"
  using assms by (simp add: handler_unregistered)

theorem unknown_pipeline_discards_witness:
  "map_of (pipelines demo_bridge) (sint (- 5 :: 32 word)) = None
   \<and> fst (goHandlePipelineBuffer demo_env 7 [1, 2, 3] 20000000 (- 5) demo_bridge) = Inr ()
   \<and> writes (snd (goHandlePipelineBuffer demo_env 7 [1, 2, 3] 20000000 (- 5) demo_bridge))
       = writes demo_bridge"
proof -
  have h: "map_of (pipelines demo_bridge) (sint (- 5 :: 32 word)) = None"
    by (simp add: demo_pipelines)
  from unknown_pipeline_discards [OF h] h show ?thesis by simp
qed

text \<open>
  C4, as the code has it: for a registered \<^verbatim>\<open>pipelineID\<close>, when every write of the call
  succeeds, the handler returns normally and has made one \<^verbatim>\<open>WriteSample\<close> call per entry
  of the session's \<^verbatim>\<open>tracks\<close>, in order, each with the input chunk as payload and the same
  computed sample count. A track receives as many samples as the list has entries for it:
  exactly one when the entries are distinct.
\<close>

theorem every_track_gets_the_sample:
  assumes "map_of (pipelines s) (sint pipelineID) = Some p"
    and "smp = \<lparr>Data = chunk, Samples = samples_of env (codecName p) duration\<rparr>"
    and "\<forall>i<length (tracks p).
           WriteSample env (writes s @ map (\<lambda>t. (t, smp, None)) (take i (tracks p)))
             (tracks p ! i) smp = None"
    and "s' = snd (goHandlePipelineBuffer env buffer chunk duration pipelineID s)"
  shows "fst (goHandlePipelineBuffer env buffer chunk duration pipelineID s) = Inr ()
       \<and> writes s' = writes s @ map (\<lambda>t. (t, smp, None)) (tracks p)
       \<and> new_writes s s' = map (\<lambda>t. (t, smp, None)) (tracks p)
       \<and> (distinct (tracks p) \<longrightarrow>
            (\<forall>t\<in>set (tracks p). filter (\<lambda>c. fst c = t) (new_writes s s') = [(t, smp, None)]))
       \<and> (\<forall>t. length (filter (\<lambda>c. fst c = t) (new_writes s s')) = count_list (tracks p) t)"
proof -
  have run: "write_tracks env (tracks p) smp (writes s)
               = (Inr (), writes s @ map (\<lambda>t. (t, smp, None)) (tracks p))"
    by (rule write_tracks_all_ok) (rule assms(3))
  have r: "goHandlePipelineBuffer env buffer chunk duration pipelineID s
             = (Inr (), s\<lparr>writes := writes s @ map (\<lambda>t. (t, smp, None)) (tracks p),
                           native := native s @ [Free buffer]\<rparr>)"
    using run by (simp add: handler_registered [OF assms(1)] assms(2))
  have new: "new_writes s s' = map (\<lambda>t. (t, smp, None)) (tracks p)"
    by (simp add: new_writes_def assms(4) r)
  have once: "filter (\<lambda>c. fst c = t) (map (\<lambda>t. (t, smp, None)) ts) = [(t, smp, None)]"
    if "distinct ts" "t \<in> set ts" for t and ts :: "Track list"
    using that by (induction ts) (auto simp add: filter_empty_conv)
  have "distinct (tracks p) \<longrightarrow>
          (\<forall>t\<in>set (tracks p). filter (\<lambda>c. fst c = t) (new_writes s s') = [(t, smp, None)])"
    unfolding new using once by blast
  moreover have "length (filter (\<lambda>c. fst c = t) (map (\<lambda>t. (t, smp, None)) ts)) = count_list ts t"
    for t and ts :: "Track list"
    by (induction ts) simp_all
  then have "\<forall>t. length (filter (\<lambda>c. fst c = t) (new_writes s s')) = count_list (tracks p) t"
    unfolding new by blast
  ultimately show ?thesis using r new by (simp add: assms(4))
qed

theorem every_track_gets_the_sample_witness:
  "map_of (pipelines demo_bridge) (sint (0 :: 32 word))
     = Some \<lparr>Pipeline = 2, tracks = [1, 2], id' = 0, codecName = webrtc_Opus\<rparr>
   \<and> fst (goHandlePipelineBuffer demo_env 7 [1, 2, 3] 20000000 0 demo_bridge) = Inr ()
   \<and> new_writes demo_bridge (snd (goHandlePipelineBuffer demo_env 7 [1, 2, 3] 20000000 0 demo_bridge))
       = [(1, \<lparr>Data = [1, 2, 3], Samples = 960\<rparr>, None),
          (2, \<lparr>Data = [1, 2, 3], Samples = 960\<rparr>, None)]"
proof -
  let ?p = "\<lparr>Pipeline = 2, tracks = [1, 2], id' = 0, codecName = webrtc_Opus\<rparr>"
  let ?smp = "\<lparr>Data = [1, 2, 3], Samples = samples_of demo_env (codecName ?p) 20000000\<rparr>"
  have h1: "map_of (pipelines demo_bridge) (sint (0 :: 32 word)) = Some ?p"
    by (simp add: demo_pipelines)
  have h3: "\<forall>i<length (tracks ?p).
              WriteSample demo_env (writes demo_bridge @ map (\<lambda>t. (t, ?smp, None)) (take i (tracks ?p)))
                (tracks ?p ! i) ?smp = None"
    by (auto simp add: demo_WriteSample less_Suc_eq)
  have d: "distinct (tracks ?p)" by simp
  have v: "samples_of demo_env webrtc_Opus 20000000 = 960" by code_simp
  from every_track_gets_the_sample [OF h1 refl h3 refl, of 7] h1 d v
  show ?thesis by simp
qed

text \<open>
  C4, as the claim states it, fails where a track is listed twice: \<^verbatim>\<open>CreatePipeline\<close>
  stores any slice of tracks, and for the session of the second run, with tracks
  \<open>[1, 1]\<close>, every write succeeds and track 1 receives two samples, not one.
\<close>

theorem track_listed_twice_counterexample:
  "map_of (pipelines twice_bridge) (sint (0 :: 32 word))
     = Some \<lparr>Pipeline = 2, tracks = [1, 1], id' = 0, codecName = webrtc_Opus\<rparr>
   \<and> fst (goHandlePipelineBuffer demo_env 7 [1, 2, 3] 20000000 0 twice_bridge) = Inr ()
   \<and> new_writes twice_bridge
        (snd (goHandlePipelineBuffer demo_env 7 [1, 2, 3] 20000000 0 twice_bridge))
       = [(1, \<lparr>Data = [1, 2, 3], Samples = 960\<rparr>, None),
          (1, \<lparr>Data = [1, 2, 3], Samples = 960\<rparr>, None)]
   \<and> length (filter (\<lambda>c. fst c = 1)
        (new_writes twice_bridge
          (snd (goHandlePipelineBuffer demo_env 7 [1, 2, 3] 20000000 0 twice_bridge)))) = 2"
  by code_simp

text \<open>
  C5: after any sequence of calls from the initial state, the registry holds as many
  sessions as there were calls of \<^verbatim>\<open>CreatePipeline\<close> with a supported codec, say \<open>n\<close>; their
  keys and their \<^verbatim>\<open>id\<close> fields are \<open>0, \<dots>, n - 1\<close> in the order of creation, so no two
  sessions share an id. A further such call appends a session whose id is \<open>n\<close>, the size
  of the registry; every other call leaves the registry as it is.
\<close>

theorem session_ids_unique:
  "map fst (pipelines (run env calls)) = map int [0..<length (filter creates calls)]
   \<and> map (id' \<circ> snd) (pipelines (run env calls)) = map int [0..<length (filter creates calls)]
   \<and> distinct (map (id' \<circ> snd) (pipelines (run env calls)))
   \<and> (creates c \<longrightarrow>
        (\<exists>p. id' p = int (length (filter creates calls))
           \<and> pipelines (exec env (run env calls) c)
               = pipelines (run env calls) @ [(int (length (filter creates calls)), p)]))
   \<and> (\<not> creates c \<longrightarrow> pipelines (exec env (run env calls) c) = pipelines (run env calls))"
proof -
  have inv: "reg_inv (pipelines (run env calls))" by (rule run_reg_inv)
  have len: "length (pipelines (run env calls)) = length (filter creates calls)"
    by (rule run_length)
  have keys: "map fst (pipelines (run env calls)) = map int [0..<length (filter creates calls)]"
    using reg_inv_keys [OF inv] by (simp only: len)
  have ids: "map (id' \<circ> snd) (pipelines (run env calls)) = map int [0..<length (filter creates calls)]"
    using reg_inv_ids [OF inv] by (simp only: len)
  have dist: "distinct (map (id' \<circ> snd) (pipelines (run env calls)))"
    unfolding ids by (simp add: distinct_map inj_on_def)
  from exec_pipelines [OF inv, where c = c and env = env] keys ids dist
  show ?thesis by (simp add: len split: if_splits)
qed

theorem session_ids_unique_witness:
  "creates (Create webrtc_VP9 [8] ''videotestsrc'')
   \<and> \<not> creates (Buffer 7 [1, 2, 3] 20000000 0)
   \<and> map (id' \<circ> snd) (pipelines (run demo_env demo_calls)) = [0, 1, 2, 3]
   \<and> map (id' \<circ> snd) (pipelines (exec demo_env (run demo_env demo_calls)
         (Create webrtc_VP9 [8] ''videotestsrc''))) = [0, 1, 2, 3, 4]
   \<and> pipelines (exec demo_env (run demo_env demo_calls) (Buffer 7 [1, 2, 3] 20000000 0))
       = pipelines (run demo_env demo_calls)"
proof -
  have h1: "creates (Create webrtc_VP9 [8] ''videotestsrc'')" by (simp add: codecs_def)
  have h2: "\<not> creates (Buffer 7 [1, 2, 3] 20000000 0)" by simp
  have n: "length (filter creates demo_calls) = 4"
    by (simp add: demo_calls_def codecs_def)
  have u: "[0..<4] = [0, 1, 2, 3]"
    by (simp add: upt_rec)
  from session_ids_unique [where env = demo_env and calls = demo_calls
      and c = "Create webrtc_VP9 [8] ''videotestsrc''"]
    session_ids_unique [where env = demo_env and calls = demo_calls
      and c = "Buffer 7 [1, 2, 3] 20000000 0"] h1 h2
  show ?thesis unfolding n u by auto
qed

text \<open>
  C6: for a registered \<^verbatim>\<open>pipelineID\<close>, when the write to the \<open>k\<close>-th track is the first to
  return an error, the handler panics with that error: the failure reaches the caller, and
  no later track is written.
\<close>

theorem failed_write_panics:
  assumes "map_of (pipelines s) (sint pipelineID) = Some p"
    and "smp = \<lparr>Data = chunk, Samples = samples_of env (codecName p) duration\<rparr>"
    and "k < length (tracks p)"
    and "\<forall>i<k. WriteSample env (writes s @ map (\<lambda>t. (t, smp, None)) (take i (tracks p)))
                  (tracks p ! i) smp = None"
    and "WriteSample env (writes s @ map (\<lambda>t. (t, smp, None)) (take k (tracks p)))
           (tracks p ! k) smp = Some err"
  shows "goHandlePipelineBuffer env buffer chunk duration pipelineID s =
           (Inl (PanicError err),
            s\<lparr>writes := writes s @ map (\<lambda>t. (t, smp, None)) (take k (tracks p))
                           @ [(tracks p ! k, smp, Some err)]\<rparr>)"
  using write_tracks_fails [OF assms(3) assms(4) assms(5)]
  by (simp add: handler_registered [OF assms(1)] assms(2))

theorem failed_write_panics_witness:
  "map_of (pipelines demo_bridge) (sint (3 :: 32 word))
     = Some \<lparr>Pipeline = 5, tracks = [5, 13, 6], id' = 3, codecName = webrtc_H264\<rparr>
   \<and> WriteSample demo_env [(5, \<lparr>Data = [1, 2, 3], Samples = 1440\<rparr>, None)] 13
        \<lparr>Data = [1, 2, 3], Samples = 1440\<rparr> = Some ''closed''
   \<and> fst (goHandlePipelineBuffer demo_env 7 [1, 2, 3] 16000000 3 demo_bridge)
       = Inl (PanicError ''closed'')
   \<and> writes (snd (goHandlePipelineBuffer demo_env 7 [1, 2, 3] 16000000 3 demo_bridge))
       = [(5, \<lparr>Data = [1, 2, 3], Samples = 1440\<rparr>, None),
          (13, \<lparr>Data = [1, 2, 3], Samples = 1440\<rparr>, Some ''closed'')]"
proof -
  let ?p = "\<lparr>Pipeline = 5, tracks = [5, 13, 6], id' = 3, codecName = webrtc_H264\<rparr>"
  let ?smp = "\<lparr>Data = [1, 2, 3], Samples = samples_of demo_env (codecName ?p) 16000000\<rparr>"
  have h1: "map_of (pipelines demo_bridge) (sint (3 :: 32 word)) = Some ?p"
    by (simp add: demo_pipelines)
  have h3: "1 < length (tracks ?p)" by simp
  have h4: "\<forall>i<1. WriteSample demo_env
                     (writes demo_bridge @ map (\<lambda>t. (t, ?smp, None)) (take i (tracks ?p)))
                     (tracks ?p ! i) ?smp = None"
    by (simp add: demo_WriteSample)
  have h5: "WriteSample demo_env
              (writes demo_bridge @ map (\<lambda>t. (t, ?smp, None)) (take 1 (tracks ?p)))
              (tracks ?p ! 1) ?smp = Some ''closed''"
    by (simp add: demo_WriteSample)
  have v: "samples_of demo_env webrtc_H264 16000000 = 1440" by code_simp
  from failed_write_panics [OF h1 refl h3 h4 h5, of 7] h1 v
  show ?thesis by (simp add: demo_WriteSample demo_writes)
qed

text \<open>
  C7: for a codec name other than the five handled ones \<^verbatim>\<open>CreatePipeline\<close> panics with
  the message \<^verbatim>\<open>Unhandled codec\<close> followed by the name, and leaves the whole state, the
  registry included, as it was.
\<close>

theorem unhandled_codec_panics:
  assumes "codec \<notin> {webrtc_VP8, webrtc_VP9, webrtc_H264, webrtc_Opus, webrtc_G722}"
  shows "CreatePipeline env codec trks src s
           = (Inl (PanicString (''Unhandled codec '' @ codec)), s)
         \<and> pipelines (snd (CreatePipeline env codec trks src s)) = pipelines s"
  using assms by (simp add: CreatePipeline_def)

theorem unhandled_codec_panics_witness:
  "''PCMU'' \<notin> {webrtc_VP8, webrtc_VP9, webrtc_H264, webrtc_Opus, webrtc_G722}
   \<and> CreatePipeline demo_env ''PCMU'' [1, 2] ''audiotestsrc'' demo_bridge
       = (Inl (PanicString ''Unhandled codec PCMU''), demo_bridge)"
proof -
  have h: "''PCMU'' \<notin> {webrtc_VP8, webrtc_VP9, webrtc_H264, webrtc_Opus, webrtc_G722}"
    by (simp add: webrtc_VP8_def webrtc_VP9_def webrtc_H264_def webrtc_Opus_def webrtc_G722_def)
  from unhandled_codec_panics [OF h, where env = demo_env and trks = "[1, 2]"
      and src = "''audiotestsrc''" and s = demo_bridge] h
  show ?thesis by simp
qed

text \<open>
  C8: the buffer is to be released exactly once on every path, the failure path included.
  \<^verbatim>\<open>C.free(buffer)\<close> is the last statement of the handler and is not deferred; by
  \<open>handler_frees\<close> a call that returns has freed the buffer once, and a call that panics
  has not freed it. In the concrete run, a chunk for the fourth session, whose second
  track refuses the write, ends in a panic and the buffer at address 7 is never freed.
\<close>

theorem buffer_not_released_on_panic:
  "fst (goHandlePipelineBuffer demo_env 7 [1, 2, 3] 16000000 3 demo_bridge)
     = Inl (PanicError ''closed'')
   \<and> frees 7 demo_bridge = 0
   \<and> frees 7 (snd (goHandlePipelineBuffer demo_env 7 [1, 2, 3] 16000000 3 demo_bridge)) = 0"
  by code_simp

text \<open>
  C9: \<^verbatim>\<open>Stop\<close> leaves the registry as it is; a session found under a key before the call is
  found there after it, with the same fields.
\<close>

theorem stop_keeps_registry:
  "pipelines (Stop p s) = pipelines s
   \<and> (map_of (pipelines s) k = Some q \<longrightarrow> map_of (pipelines (Stop p s)) k = Some q)"
  by (simp add: Stop_def)

theorem stop_keeps_registry_witness:
  "map_of (pipelines demo_bridge) 1
     = Some \<lparr>Pipeline = 3, tracks = [3], id' = 1, codecName = webrtc_VP8\<rparr>
   \<and> map_of (pipelines
        (Stop \<lparr>Pipeline = 3, tracks = [3], id' = 1, codecName = webrtc_VP8\<rparr> demo_bridge)) 1
     = Some \<lparr>Pipeline = 3, tracks = [3], id' = 1, codecName = webrtc_VP8\<rparr>"
proof -
  let ?p = "\<lparr>Pipeline = 3, tracks = [3], id' = 1, codecName = webrtc_VP8\<rparr>"
  have h: "map_of (pipelines demo_bridge) 1 = Some ?p"
    by (simp add: demo_pipelines)
  from stop_keeps_registry [where p = ?p and s = demo_bridge and k = 1 and q = ?p] h
  show ?thesis by simp
qed

text \<open>
  C10: in every reachable state, for each of the five codecs, any track list and any source
  description (empty or malformed ones too: the string is only passed on to the C side,
  whose answer, possibly the null element 0, is stored unchecked), \<^verbatim>\<open>CreatePipeline\<close>
  returns a session with the given codec and tracks and stores it under a key that was
  free before.
\<close>

theorem create_always_registers:
  assumes "codec \<in> {webrtc_VP8, webrtc_VP9, webrtc_H264, webrtc_Opus, webrtc_G722}"
    and "s = run env calls"
  shows "\<exists>p s'. CreatePipeline env codec trks src s = (Inr p, s')
           \<and> codecName p = codec \<and> tracks p = trks \<and> id' p = int (length (pipelines s))
           \<and> map_of (pipelines s) (id' p) = None
           \<and> pipelines s' = pipelines s @ [(id' p, p)]
           \<and> map_of (pipelines s') (id' p) = Some p"
proof -
  have c: "codec \<in> codecs" using assms(1) by (simp add: codecs_def)
  have inv: "reg_inv (pipelines s)" unfolding assms(2) by (rule run_reg_inv)
  have fresh: "int (length (pipelines s)) \<notin> fst ` set (pipelines s)"
    by (rule reg_inv_fresh [OF inv])
  then have none: "map_of (pipelines s) (int (length (pipelines s))) = None"
    by (simp add: map_of_eq_None_iff)
  from CreatePipeline_returns [OF c, where env = env and trks = trks and src = src and s = s]
  obtain d where d: "CreatePipeline env codec trks src s =
           (Inr \<lparr>Pipeline = gstreamer_send_create_pipeline env (native s) d, tracks = trks,
                 id' = int (length (pipelines s)), codecName = codec\<rparr>,
            s\<lparr>pipelines := AList.update (int (length (pipelines s)))
                  \<lparr>Pipeline = gstreamer_send_create_pipeline env (native s) d, tracks = trks,
                   id' = int (length (pipelines s)), codecName = codec\<rparr> (pipelines s),
              native := native s @ [CreateNative d]\<rparr>)"
    by blast
  show ?thesis
    unfolding d using none fresh by (simp add: update_fresh map_add_def)
qed

theorem create_always_registers_witness:
  "webrtc_VP9 \<in> {webrtc_VP8, webrtc_VP9, webrtc_H264, webrtc_Opus, webrtc_G722}
   \<and> (\<exists>p s'. CreatePipeline demo_env webrtc_VP9 [] '''' demo_bridge = (Inr p, s')
          \<and> codecName p = webrtc_VP9 \<and> tracks p = [] \<and> id' p = 4
          \<and> map_of (pipelines demo_bridge) (id' p) = None
          \<and> pipelines s' = pipelines demo_bridge @ [(id' p, p)]
          \<and> map_of (pipelines s') (id' p) = Some p)"
proof -
  have h: "webrtc_VP9 \<in> {webrtc_VP8, webrtc_VP9, webrtc_H264, webrtc_Opus, webrtc_G722}"
    by simp
  have n: "int (length (pipelines demo_bridge)) = 4" by (simp add: demo_pipelines)
  from create_always_registers [OF h demo_bridge_def, where trks = "[]" and src = "''''"] h n
  show ?thesis by simp
qed

end
